theory Spec2Isabelle
  imports Complex_Main "HOL-Library.Word" "HOL-Library.Sublist"
begin

unbundle bit_operations_syntax

section \<open>The voice-session client of \<^verbatim>\<open>robot_client.py\<close>\<close>

text \<open>
  The client performs one handshake, then runs two cooperating tasks (\<^verbatim>\<open>send_audio\<close> and
  \<^verbatim>\<open>receive_messages\<close>) that share the flag \<^verbatim>\<open>stop\<close>, and finally tears the session down.
  The collaborators of the script (the WebSocket channel, the microphone, the clocks, the Opus
  codec, \<^verbatim>\<open>json.loads\<close>, the console) are not part of the repository: the channel, the
  microphone and the clocks appear as scripts of what each call returns or raises, the
  codec, the JSON reader and the console as parameters.
\<close>

subsection \<open>Bytes, exceptions, JSON values\<close>

type_synonym byte = "8 word"
type_synonym bytes = "byte list"

text \<open>
  The instances of \<^verbatim>\<open>Exception\<close>. The script tells apart \<^verbatim>\<open>websockets.ConnectionClosed\<close> and
  every other one; the others are named after the call that raises them. A cancellation
  (\<^verbatim>\<open>asyncio.CancelledError\<close>) is no \<^verbatim>\<open>Exception\<close>: no handler of the script catches it, and it
  is not a value of this type.
\<close>

datatype exn =
    ConnectionClosed
  | JSONDecodeError
  | AttributeError
  | UnicodeEncodeError
  | ValueError
  | OSError
  | OpusError
  | DeviceError
  | OtherError

text \<open>What \<^verbatim>\<open>json.loads\<close> returns. Numbers are kept to the integers.\<close>

datatype json =
    JNull
  | JBool bool
  | JInt int
  | JStr string
  | JArr "json list"
  | JObj "(string \<times> json) list"

text \<open>
  \<^verbatim>\<open>x.get(key, default)\<close>: a dictionary answers with the value stored under the key, or with
  the default; every other JSON value has no attribute \<^verbatim>\<open>get\<close>. A dictionary read by
  \<^verbatim>\<open>json.loads\<close> holds each key once.
\<close>

fun py_get :: "json \<Rightarrow> string \<Rightarrow> json \<Rightarrow> exn + json" where
  "py_get (JObj kvs) key dflt = Inr (case map_of kvs key of None \<Rightarrow> dflt | Some v \<Rightarrow> v)"
| "py_get _ key dflt = Inl AttributeError"

text \<open>\<^verbatim>\<open>str.lower\<close> on the ASCII letters; a character outside \<^verbatim>\<open>A-Z\<close> stays as it is.\<close>

definition lower_char :: "char \<Rightarrow> char" where
  "lower_char c =
     (case map_of (zip ''ABCDEFGHIJKLMNOPQRSTUVWXYZ'' ''abcdefghijklmnopqrstuvwxyz'') c of
        None \<Rightarrow> c
      | Some l \<Rightarrow> l)"

definition lower :: "string \<Rightarrow> string" where
  "lower s = map lower_char s"

text \<open>\<^verbatim>\<open>x.lower()\<close> on a JSON value: only a string has the method.\<close>

fun py_lower :: "json \<Rightarrow> exn + string" where
  "py_lower (JStr s) = Inr (lower s)"
| "py_lower _ = Inl AttributeError"

text \<open>\<^verbatim>\<open>bytes.hex()\<close>: two lower-case hexadecimal digits for each byte.\<close>

definition hex_digit :: "nat \<Rightarrow> char" where
  "hex_digit n = ''0123456789abcdef'' ! n"

definition hex_byte :: "byte \<Rightarrow> string" where
  "hex_byte b = [hex_digit (unat b div 16), hex_digit (unat b mod 16)]"

definition hex :: "bytes \<Rightarrow> string" where
  "hex bs = concat (map hex_byte bs)"

subsection \<open>Console output\<close>

text \<open>Each \<^verbatim>\<open>print\<close> of the script is one constructor, with the values it interpolates.\<close>

datatype line =
    SentHello json
  | UnexpectedResponseType json
  | SessionId json
  | ServerFormat json
  | InputOverflowed
  | ClosedDuringRecording
  | SendAudioError exn
  | SendingFrames nat nat
  | ClosedDuringSending
  | FinishedSending
  | ReceivedAudio nat
  | DetectedID3
  | DetectedFrameSync
  | DetectedOgg
  | FormatMismatch string json
  | FormatTip string
  | SavedMP3 string
  | PlayMP3Tip
  | PlayingOpus
  | OpusDecodeError exn
  | AudioLength nat
  | FirstBytes string
  | SavedUnknown
  | Indeterminate json
  | DecodedAsOpus
  | DecodeAsOpusError exn
  | SavedForAnalysis string
  | SavedAs string
  | PlayTip string
  | Transcription json
  | LLMResponse json
  | HelloAgain json
  | SystemMessage json
  | UnknownType json
  | FullMessage json
  | ClosedDuringReceive
  | ReceiveError exn
  | TimeoutNotice
  | ConnectionClosedDone

subsection \<open>Audio parameters\<close>

definition sample_rate :: nat where "sample_rate = 48000"
definition channels :: nat where "channels = 1"
definition frame_size :: nat where "frame_size = sample_rate div 50"
definition record_seconds :: real where "record_seconds = 5"

subsection \<open>Handshake\<close>

text \<open>
  The Hello message. The script writes the literal \<^verbatim>\<open>"mp3"\<close> for \<^verbatim>\<open>audio_format\<close> and notes
  that \<^verbatim>\<open>"opus"\<close> may be chosen instead, so the requested format is the argument here.
\<close>

definition hello :: "string \<Rightarrow> json" where
  "hello audio_format = JObj
     [(''type'', JStr ''hello''),
      (''version'', JInt 3),
      (''transport'', JStr ''websocket''),
      (''features'', JObj [(''aec'', JBool True), (''mcp'', JBool False)]),
      (''audio_params'', JObj
         [(''format'', JStr ''opus''),
          (''sample_rate'', JInt 48000),
          (''channels'', JInt 1),
          (''frame_duration'', JInt 20)]),
      (''audio_format'', JStr audio_format)]"

text \<open>
  What the handshake establishes: the console lines, the session identifier and
  \<^verbatim>\<open>server_audio_format\<close>.
\<close>

record handshake_result =
  hs_console :: "line list"
  session_id :: json
  server_audio_format :: json



subsection \<open>Session state\<close>

text \<open>
  What the two tasks and the teardown act on: the shared flag \<^verbatim>\<open>stop\<close>, the console, the
  binary messages handed to \<^verbatim>\<open>websocket.send\<close> (oldest first), the files written, the PCM
  buffers written to the output stream, and the states of the Opus encoder and decoder.
\<close>

record ('e, 'd) session =
  stop :: bool
  console :: "line list"
  sent :: "bytes list"
  files :: "string \<Rightarrow> bytes option"
  played :: "bytes list"
  encoder :: 'e
  decoder :: 'd

definition say :: "line list \<Rightarrow> ('e, 'd) session \<Rightarrow> ('e, 'd) session" where
  "say ls s = s\<lparr>console := console s @ ls\<rparr>"

definition set_stop :: "('e, 'd) session \<Rightarrow> ('e, 'd) session" where
  "set_stop s = s\<lparr>stop := True\<rparr>"

text \<open>\<^verbatim>\<open>open(name, "wb")\<close> followed by one \<^verbatim>\<open>write\<close>: the file holds exactly the data written.\<close>

definition write_file :: "string \<Rightarrow> bytes \<Rightarrow> ('e, 'd) session \<Rightarrow> ('e, 'd) session" where
  "write_file name data s = s\<lparr>files := (files s)(name \<mapsto> data)\<rparr>"

text \<open>
  Whether \<^verbatim>\<open>open(name, "wb")\<close> raises because of the name: a name with a NUL character is
  refused with \<^verbatim>\<open>ValueError\<close>; a name with a slash points into a directory that is not there,
  and a name of more than 255 bytes is too long (\<^verbatim>\<open>OSError\<close>). The working directory is
  taken to be writable and to hold no directory of the names used.
\<close>

definition open_wb :: "string \<Rightarrow> exn option" where
  "open_wb name =
     (if CHR 0x00 \<in> set name then Some ValueError
      else if CHR ''/'' \<in> set name \<or> length name > 255 then Some OSError
      else None)"

text \<open>
  How a block of statements ends: normally, or by an exception that leaves the block; the
  effects made before the exception stay.
\<close>

datatype 's completion = Normal 's | Raised exn 's

text \<open>
  \<^verbatim>\<open>with open(name, "wb") as f: f.write(data)\<close> and the prints after it: when the file
  cannot be opened, nothing is written and the prints are not reached.
\<close>

definition save ::
  "string \<Rightarrow> bytes \<Rightarrow> line list \<Rightarrow> ('e, 'd) session \<Rightarrow> ('e, 'd) session completion" where
  "save name data after s =
     (case open_wb name of
        Some e \<Rightarrow> Raised e s
      | None \<Rightarrow> Normal (say after (write_file name data s)))"

text \<open>
  Prints of text taken from a received text message: the console is a parameter that says
  which lines it can encode (a UTF-8 console cannot encode a lone surrogate, which a JSON
  string may hold), and \<^verbatim>\<open>print\<close> raises on the first line it cannot.
\<close>

fun emit :: "(line \<Rightarrow> bool) \<Rightarrow> line list \<Rightarrow> ('e, 'd) session \<Rightarrow> ('e, 'd) session completion" where
  "emit console_encodes [] s = Normal s"
| "emit console_encodes (l # ls) s =
     (if console_encodes l then emit console_encodes ls (say [l] s)
      else Raised UnicodeEncodeError s)"

text \<open>
  How a task stands when its script of events is used up: it has returned, it is still
  suspended in an \<^verbatim>\<open>await\<close>, or it was cancelled while suspended.
\<close>

datatype 's task = Returned 's | Pending 's | Cancelled 's

subsection \<open>Receive task: binary messages\<close>

definition ID3 :: bytes where "ID3 = [0x49, 0x44, 0x33]"
definition OggS :: bytes where "OggS = [0x4F, 0x67, 0x67, 0x53]"

text \<open>
  The magic-byte test: \<^verbatim>\<open>detected_format\<close> together with the line printed on detection, or
  \<^verbatim>\<open>None\<close>. The three tests are nested under \<^verbatim>\<open>len(message) >= 3\<close> as in the script.
\<close>

definition sniff :: "bytes \<Rightarrow> (string \<times> line) option" where
  "sniff message =
     (if length message \<ge> 3 then
        (if take 3 message = ID3 then Some (''mp3'', DetectedID3)
         else if length message \<ge> 2 \<and> message ! 0 = 0xFF \<and> (message ! 1) AND 0xE0 = 0xE0
           then Some (''mp3'', DetectedFrameSync)
         else if length message \<ge> 4 then
           (if take 4 message = OggS then Some (''opus'', DetectedOgg) else None)
         else None)
      else None)"

text \<open>
  The pair \<^verbatim>\<open>(is_mp3, is_opus)\<close> after reconciliation: the lower-cased negotiated format
  decides, unless a format was detected and differs from it.
\<close>

definition classify :: "string \<Rightarrow> (string \<times> line) option \<Rightarrow> bool \<times> bool" where
  "classify fmt detected =
     (case detected of
        None \<Rightarrow> (fmt = ''mp3'', fmt = ''opus'')
      | Some (detected_format, _) \<Rightarrow>
          (if detected_format \<noteq> fmt
           then (detected_format = ''mp3'', detected_format = ''opus'')
           else (fmt = ''mp3'', fmt = ''opus'')))"

text \<open>
  The codec is a parameter: \<^verbatim>\<open>decoder.decode(message, frame_size)\<close> returns PCM or raises, and
  leaves the decoder in a new state. Writing to the output stream is taken to succeed.
\<close>

type_synonym 'd decode = "'d \<Rightarrow> bytes \<Rightarrow> nat \<Rightarrow> (exn + bytes) \<times> 'd"
type_synonym 'e encode = "'e \<Rightarrow> bytes \<Rightarrow> nat \<Rightarrow> (exn + bytes) \<times> 'e"

text \<open>
  The \<^verbatim>\<open>isinstance(message, bytes)\<close> branch of the loop body. Every
  \<^verbatim>\<open>server_audio_format.lower()\<close> of the branch is the one value \<open>fmt\<close>; the first call
  raises when the negotiated value is not a string. What the branch prints are literals,
  numbers, exceptions, hexadecimal digits and the negotiated format, which the handshake
  has printed before the loop starts.
\<close>

definition handle_binary ::
  "'d decode \<Rightarrow> json \<Rightarrow> bytes \<Rightarrow> ('e, 'd) session \<Rightarrow> ('e, 'd) session completion" where
  "handle_binary decode saf message s =
     (let s1 = say [ReceivedAudio (length message)] s
      in case py_lower saf of
           Inl e \<Rightarrow> Raised e s1
         | Inr fmt \<Rightarrow>
             (let detected = sniff message;
                  s2 = (case detected of None \<Rightarrow> s1 | Some (_, l) \<Rightarrow> say [l] s1);
                  s3 = (case detected of
                          None \<Rightarrow> s2
                        | Some (detected_format, _) \<Rightarrow>
                            (if detected_format \<noteq> fmt
                             then say [FormatMismatch detected_format saf,
                                       FormatTip detected_format] s2
                             else s2));
                  (is_mp3, is_opus) = classify fmt detected
              in if is_mp3 then
                   save ''response.mp3'' message [SavedMP3 ''response.mp3'', PlayMP3Tip] s3
                 else if is_opus then
                   (case decode (decoder s3) message frame_size of
                      (Inr pcm, d') \<Rightarrow>
                        Normal (say [PlayingOpus]
                                  (s3\<lparr>decoder := d', played := played s3 @ [pcm]\<rparr>))
                    | (Inl e, d') \<Rightarrow>
                        save ''response_unknown.bin'' message [SavedUnknown]
                          (say [OpusDecodeError e, AudioLength (length message),
                                FirstBytes (hex (take 10 message))]
                             (s3\<lparr>decoder := d'\<rparr>)))
                 else
                   (let s4 = say [Indeterminate saf] s3
                    in if fmt = ''opus'' then
                         (case decode (decoder s4) message frame_size of
                            (Inr pcm, d') \<Rightarrow>
                              Normal (say [DecodedAsOpus]
                                        (s4\<lparr>decoder := d', played := played s4 @ [pcm]\<rparr>))
                          | (Inl e, d') \<Rightarrow>
                              save ''response_opus_error.bin'' message
                                [SavedForAnalysis ''response_opus_error.bin'']
                                (say [DecodeAsOpusError e] (s4\<lparr>decoder := d'\<rparr>)))
                       else
                         save (''response.'' @ fmt) message
                           [SavedAs (''response.'' @ fmt), PlayTip (''response.'' @ fmt)] s4)))"

subsection \<open>Receive task: text messages\<close>

text \<open>
  The \<^verbatim>\<open>else\<close> branch of the loop body. \<^verbatim>\<open>json.loads\<close> is a parameter that answers \<^verbatim>\<open>None\<close>
  where the library raises \<^verbatim>\<open>JSONDecodeError\<close>; the console is the parameter of \<open>emit\<close>.
\<close>

definition handle_text ::
  "(string \<Rightarrow> json option) \<Rightarrow> (line \<Rightarrow> bool) \<Rightarrow> string \<Rightarrow> ('e, 'd) session \<Rightarrow>
   ('e, 'd) session completion" where
  "handle_text json_loads console_encodes message s =
     (case json_loads message of
        None \<Rightarrow> Raised JSONDecodeError s
      | Some data \<Rightarrow>
          (case py_get data ''type'' JNull of
             Inl e \<Rightarrow> Raised e s
           | Inr msg_type \<Rightarrow>
               (if msg_type = JStr ''stt'' then
                  (case py_get data ''text'' (JStr []) of
                     Inl e \<Rightarrow> Raised e s
                   | Inr text \<Rightarrow> emit console_encodes [Transcription text] s)
                else if msg_type = JStr ''llm'' then
                  (case py_get data ''text'' (JStr []) of
                     Inl e \<Rightarrow> Raised e s
                   | Inr text \<Rightarrow> emit console_encodes [LLMResponse text] s)
                else if msg_type = JStr ''hello'' then
                  emit console_encodes [HelloAgain data] s
                else if msg_type = JStr ''system'' then
                  (case py_get data ''command'' (JStr []) of
                     Inl e \<Rightarrow> Raised e s
                   | Inr command \<Rightarrow> emit console_encodes [SystemMessage command] s)
                else
                  emit console_encodes [UnknownType msg_type, FullMessage data] s)))"

subsection \<open>Receive task: the loop\<close>

text \<open>
  What one \<^verbatim>\<open>await websocket.recv()\<close> gives: a binary message, a text message, an
  exception, or the cancellation of the task while it waits (what \<^verbatim>\<open>asyncio.wait_for\<close> does
  to it when the time is up). The flag paired with each event says whether the other task
  set \<^verbatim>\<open>stop\<close> while this task was suspended in that \<^verbatim>\<open>await\<close>.
\<close>

datatype recv_event = Binary bytes | Text string | RecvRaises exn | RecvCancelled

text \<open>The two handlers around the loop: print, then \<^verbatim>\<open>stop.set()\<close>.\<close>

definition receive_handler :: "exn \<Rightarrow> ('e, 'd) session \<Rightarrow> ('e, 'd) session" where
  "receive_handler e s =
     set_stop (say [if e = ConnectionClosed then ClosedDuringReceive else ReceiveError e] s)"

text \<open>
  \<^verbatim>\<open>receive_messages\<close>. Every \<^verbatim>\<open>Exception\<close> that leaves the loop body is caught by one of
  the two handlers, after which the function returns; a cancellation passes both handlers
  and ends the task with nothing printed and the flag untouched.
\<close>

fun receive_messages ::
  "'d decode \<Rightarrow> (string \<Rightarrow> json option) \<Rightarrow> (line \<Rightarrow> bool) \<Rightarrow> json \<Rightarrow>
   (recv_event \<times> bool) list \<Rightarrow> ('e, 'd) session \<Rightarrow> ('e, 'd) session task" where
  "receive_messages decode json_loads console_encodes saf [] s =
     (if stop s then Returned s else Pending s)"
| "receive_messages decode json_loads console_encodes saf ((ev, other_stops) # rest) s =
     (if stop s then Returned s
      else
        (let s0 = (if other_stops then set_stop s else s)
         in case ev of
              RecvCancelled \<Rightarrow> Cancelled s0
            | RecvRaises e \<Rightarrow> Returned (receive_handler e s0)
            | Binary message \<Rightarrow>
                (case handle_binary decode saf message s0 of
                   Raised e s' \<Rightarrow> Returned (receive_handler e s')
                 | Normal s' \<Rightarrow>
                     receive_messages decode json_loads console_encodes saf rest s')
            | Text message \<Rightarrow>
                (case handle_text json_loads console_encodes message s0 of
                   Raised e s' \<Rightarrow> Returned (receive_handler e s')
                 | Normal s' \<Rightarrow>
                     receive_messages decode json_loads console_encodes saf rest s')))"

subsection \<open>Send task: capture\<close>

text \<open>
  One pass of the capture loop reads the monotonic clock in the loop condition, reads one
  frame from the microphone (PCM bytes and the overflow flag, or an exception), reads the
  wall clock for the overflow warning (once in its condition, once for
  \<^verbatim>\<open>last_overflow_log\<close>), and suspends in \<^verbatim>\<open>await asyncio.sleep(0)\<close>, where the receive task
  may set \<^verbatim>\<open>stop\<close>. Clock values are real numbers of seconds.
\<close>

record tick =
  monotonic :: real
  mic_read :: "exn + bytes \<times> bool"
  wall_check :: real
  wall_log :: real
  cancelled_meanwhile :: bool

text \<open>The two handlers inside the capture loop: print, then \<^verbatim>\<open>stop.set()\<close>.\<close>

definition capture_handler :: "exn \<Rightarrow> ('e, 'd) session \<Rightarrow> ('e, 'd) session" where
  "capture_handler e s =
     set_stop (say [if e = ConnectionClosed then ClosedDuringRecording else SendAudioError e] s)"

text \<open>
  The \<^verbatim>\<open>while\<close> loop of \<^verbatim>\<open>send_audio\<close>, on the local variables \<^verbatim>\<open>frames\<close> and
  \<^verbatim>\<open>last_overflow_log\<close>. The loop has no bound of its own: it ends when the flag is set or
  the clock has passed \<^verbatim>\<open>record_seconds\<close>. The result is \<^verbatim>\<open>None\<close> when the script of ticks
  ends before the loop does.
\<close>

fun capture ::
  "real \<Rightarrow> tick list \<Rightarrow> bytes list \<Rightarrow> real \<Rightarrow> ('e, 'd) session \<Rightarrow>
   (bytes list \<times> real \<times> ('e, 'd) session) option" where
  "capture start_ts [] frames last_overflow_log s =
     (if stop s then Some (frames, last_overflow_log, s) else None)"
| "capture start_ts (t # ts) frames last_overflow_log s =
     (if \<not> stop s \<and> monotonic t - start_ts < record_seconds then
        (case mic_read t of
           Inl e \<Rightarrow> capture start_ts ts frames last_overflow_log (capture_handler e s)
         | Inr (pcm_bytes, overflowed) \<Rightarrow>
             (let warn = (overflowed \<and> wall_check t - last_overflow_log > 5);
                  s1 = (if warn then say [InputOverflowed] s else s);
                  last_overflow_log1 = (if warn then wall_log t else last_overflow_log);
                  s2 = (if cancelled_meanwhile t then set_stop s1 else s1)
              in capture start_ts ts (frames @ [pcm_bytes]) last_overflow_log1 s2))
      else Some (frames, last_overflow_log, s))"

subsection \<open>Send task: encode and transmit\<close>

text \<open>
  What one \<^verbatim>\<open>await websocket.send(opus_frame)\<close> gives: the message is handed over, and the
  receive task may have set \<^verbatim>\<open>stop\<close> during the suspension; or the call raises. The channel is
  a function from the number of the call to its outcome.
\<close>

datatype send_event = Sent bool | SendRaises exn

text \<open>The two handlers inside the \<^verbatim>\<open>for\<close> loop: print, \<^verbatim>\<open>stop.set()\<close>, \<^verbatim>\<open>break\<close>.\<close>

definition send_handler :: "exn \<Rightarrow> ('e, 'd) session \<Rightarrow> ('e, 'd) session" where
  "send_handler e s =
     set_stop (say [if e = ConnectionClosed then ClosedDuringSending else SendAudioError e] s)"

text \<open>
  The \<^verbatim>\<open>for pcm_raw in frames\<close> loop; \<open>i\<close> counts the calls of \<^verbatim>\<open>websocket.send\<close>. The loop
  reads \<^verbatim>\<open>stop\<close> nowhere.
\<close>

fun transmit ::
  "'e encode \<Rightarrow> (nat \<Rightarrow> send_event) \<Rightarrow> nat \<Rightarrow> bytes list \<Rightarrow> ('e, 'd) session \<Rightarrow>
   ('e, 'd) session" where
  "transmit encode chan i [] s = s"
| "transmit encode chan i (pcm_raw # rest) s =
     (case encode (encoder s) pcm_raw frame_size of
        (Inl e, enc') \<Rightarrow> send_handler e (s\<lparr>encoder := enc'\<rparr>)
      | (Inr opus_frame, enc') \<Rightarrow>
          (case chan i of
             SendRaises e \<Rightarrow> send_handler e (s\<lparr>encoder := enc'\<rparr>)
           | Sent other_stops \<Rightarrow>
               transmit encode chan (Suc i) rest
                 (s\<lparr>encoder := enc', sent := sent s @ [opus_frame],
                    stop := (stop s \<or> other_stops)\<rparr>)))"

text \<open>
  \<^verbatim>\<open>send_audio\<close>: capture, the summary line, the burst, the closing line. The captured
  frames are returned beside the session. The input stream is taken to open.
\<close>

definition send_audio ::
  "'e encode \<Rightarrow> real \<Rightarrow> tick list \<Rightarrow> (nat \<Rightarrow> send_event) \<Rightarrow> ('e, 'd) session \<Rightarrow>
   (bytes list \<times> ('e, 'd) session) option" where
  "send_audio encode start_ts ticks chan s =
     (case capture start_ts ticks [] 0 s of
        None \<Rightarrow> None
      | Some (frames, _, s1) \<Rightarrow>
          (let s2 = (if frames \<noteq> []
                     then say [SendingFrames (length frames) (length frames * 20)] s1
                     else s1);
               s3 = transmit encode chan 0 frames s2
           in Some (frames, say [FinishedSending] s3)))"

text \<open>
  The Opus packets of a list of frames, encoded one after the other by the same encoder,
  up to the first frame the encoder rejects; and whether the encoder accepts them all.
\<close>

fun encode_all :: "'e encode \<Rightarrow> 'e \<Rightarrow> bytes list \<Rightarrow> bytes list" where
  "encode_all encode enc [] = []"
| "encode_all encode enc (pcm_raw # rest) =
     (case encode enc pcm_raw frame_size of
        (Inl e, enc') \<Rightarrow> []
      | (Inr opus_frame, enc') \<Rightarrow> opus_frame # encode_all encode enc' rest)"

fun encoder_accepts :: "'e encode \<Rightarrow> 'e \<Rightarrow> bytes list \<Rightarrow> bool" where
  "encoder_accepts encode enc [] = True"
| "encoder_accepts encode enc (pcm_raw # rest) =
     (case encode enc pcm_raw frame_size of
        (Inl e, enc') \<Rightarrow> False
      | (Inr opus_frame, enc') \<Rightarrow> encoder_accepts encode enc' rest)"

text \<open>The channel with the other task's interference removed.\<close>

fun undisturbed :: "send_event \<Rightarrow> send_event" where
  "undisturbed (Sent other_stops) = Sent False"
| "undisturbed (SendRaises e) = SendRaises e"

fun delivered :: "send_event \<Rightarrow> bool" where
  "delivered (Sent other_stops) = True"
| "delivered (SendRaises e) = False"

text \<open>How many of the sends \<open>i\<close>, \<open>i + 1\<close>, ... are delivered before the first that raises, up to \<open>n\<close>.\<close>

fun leading :: "(nat \<Rightarrow> send_event) \<Rightarrow> nat \<Rightarrow> nat \<Rightarrow> nat" where
  "leading chan i 0 = 0"
| "leading chan i (Suc n) = (if delivered (chan i) then Suc (leading chan (Suc i) n) else 0)"

text \<open>The PCM of a tick whose read succeeds (empty otherwise).\<close>

definition pcm_of :: "tick \<Rightarrow> bytes" where
  "pcm_of t = (case mic_read t of Inl e \<Rightarrow> [] | Inr (pcm_bytes, overflowed) \<Rightarrow> pcm_bytes)"

fun read_ok :: "exn + bytes \<times> bool \<Rightarrow> bool" where
  "read_ok (Inl e) = False"
| "read_ok (Inr r) = True"

text \<open>
  The number of passes the capture loop makes over a script of ticks, from whether the
  flag is set when it starts: a pass is made while the flag is clear and the clock is
  inside the window, and it sets the flag when the read raises or the other task does.
\<close>

fun passes :: "real \<Rightarrow> tick list \<Rightarrow> bool \<Rightarrow> nat" where
  "passes start_ts [] stopped = 0"
| "passes start_ts (t # ts) stopped =
     (if \<not> stopped \<and> monotonic t - start_ts < record_seconds
      then Suc (passes start_ts ts (\<not> read_ok (mic_read t) \<or> cancelled_meanwhile t))
      else 0)"

subsection \<open>Teardown\<close>

text \<open>
  The \<^verbatim>\<open>finally\<close> block of \<^verbatim>\<open>robot_client\<close>: five calls in a row with no handler between
  them. \<^verbatim>\<open>websocket.close()\<close>, \<^verbatim>\<open>output_stream.stop()\<close> and \<^verbatim>\<open>output_stream.close()\<close> each
  return or raise (\<^verbatim>\<open>None\<close> or the exception); \<^verbatim>\<open>asyncio.gather\<close> with
  \<^verbatim>\<open>return_exceptions=True\<close> returns whatever terminal state the receive task reached
  (finished, ended by an exception, or cancelled). The result lists the calls made, in
  order, the exception that left the block, and the session.
\<close>

datatype step = SetFlag | CloseChannel | AwaitReceive | StopOutput | CloseOutput

datatype terminal = Finished | Failed exn | CancelledTask

definition teardown ::
  "exn option \<Rightarrow> terminal \<Rightarrow> exn option \<Rightarrow> exn option \<Rightarrow> ('e, 'd) session \<Rightarrow>
   step list \<times> exn option \<times> ('e, 'd) session" where
  "teardown ws_close recv_terminal out_stop out_close s =
     (let s1 = set_stop s
      in case ws_close of
           Some e \<Rightarrow> ([SetFlag, CloseChannel], Some e, s1)
         | None \<Rightarrow>
             (case out_stop of
                Some e \<Rightarrow> ([SetFlag, CloseChannel, AwaitReceive, StopOutput], Some e, s1)
              | None \<Rightarrow>
                  (case out_close of
                     Some e \<Rightarrow>
                       ([SetFlag, CloseChannel, AwaitReceive, StopOutput, CloseOutput],
                        Some e, s1)
                   | None \<Rightarrow>
                       ([SetFlag, CloseChannel, AwaitReceive, StopOutput, CloseOutput],
                        None, say [ConnectionClosedDone] s1))))"

text \<open>
  The \<^verbatim>\<open>try\<close> around \<^verbatim>\<open>asyncio.wait_for(recv_task, timeout=300.0)\<close> with its \<^verbatim>\<open>finally\<close>: a
  receive task still pending when the time is up is cancelled and gives the timeout notice.
\<close>

definition await_and_teardown ::
  "('e, 'd) session task \<Rightarrow> exn option \<Rightarrow> exn option \<Rightarrow> exn option \<Rightarrow>
   step list \<times> exn option \<times> ('e, 'd) session" where
  "await_and_teardown recv_task ws_close out_stop out_close =
     (case recv_task of
        Returned s \<Rightarrow> teardown ws_close Finished out_stop out_close s
      | Pending s \<Rightarrow>
          teardown ws_close CancelledTask out_stop out_close (say [TimeoutNotice] s)
      | Cancelled s \<Rightarrow>
          teardown ws_close CancelledTask out_stop out_close (say [TimeoutNotice] s))"

subsection \<open>Concrete collaborators for the examples\<close>

text \<open>
  A session in which nothing has happened yet, a decoder that rejects every packet, an
  encoder that numbers its packets (so that its output depends on its state), an encoder
  that does the same but rejects its second frame, a console that encodes every line, a channel
  on which every send succeeds, with and without the receive task setting \<^verbatim>\<open>stop\<close> during
  each send, and a microphone that delivers one frame every 20 ms.
\<close>

definition fresh_session :: "(nat, unit) session" where
  "fresh_session =
     \<lparr>stop = False, console = [], sent = [], files = Map.empty, played = [],
      encoder = 0, decoder = ()\<rparr>"

definition rejecting_decoder :: "unit decode" where
  "rejecting_decoder d message n = (Inl OpusError, d)"

definition numbering_encoder :: "nat encode" where
  "numbering_encoder enc pcm_raw n = (Inr (of_nat enc # pcm_raw), Suc enc)"

definition picky_encoder :: "nat encode" where
  "picky_encoder enc pcm_raw n =
     (if enc = 1 then (Inl OpusError, enc) else (Inr (of_nat enc # pcm_raw), Suc enc))"

definition plain_console :: "line \<Rightarrow> bool" where
  "plain_console l = True"

definition steady_channel :: "nat \<Rightarrow> send_event" where
  "steady_channel i = Sent False"

definition disturbed_channel :: "nat \<Rightarrow> send_event" where
  "disturbed_channel i = Sent True"

definition steady_tick :: "nat \<Rightarrow> tick" where
  "steady_tick i =
     \<lparr>monotonic = real i / 50, mic_read = Inr ([of_nat i, 0], False),
      wall_check = 0, wall_log = 0, cancelled_meanwhile = False\<rparr>"

definition steady_ticks :: "tick list" where
  "steady_ticks = map steady_tick [0..<251]"

text \<open>
  \<^verbatim>\<open>json.loads\<close> on the texts used in the examples: two JSON objects and the empty JSON
  array. On every other text this stand-in answers \<^verbatim>\<open>None\<close>; the examples use it only on
  the text \<^verbatim>\<open>not json\<close>, on which the library raises.
\<close>

definition json_loads_fragment :: "string \<Rightarrow> json option" where
  \<open>json_loads_fragment text =
     (if text = ''{"type": "hello", "session_id": "abc"}''
        then Some (JObj [(''type'', JStr ''hello''), (''session_id'', JStr ''abc'')])
      else if text = ''{"type": "stt", "text": "hello"}''
        then Some (JObj [(''type'', JStr ''stt''), (''text'', JStr ''hello'')])
      else if text = ''[]'' then Some (JArr [])
      else None)\<close>



section \<open>Properties\<close>

subsection \<open>Handshake: the fallback law\<close>



subsection \<open>Receive task: sniffing and classification\<close>

lemma open_fixed_names [simp]:
  "open_wb ''response.mp3'' = None"
  "open_wb ''response_unknown.bin'' = None"
  "open_wb ''response_opus_error.bin'' = None"
  by (simp_all add: open_wb_def)

lemma save_cases:
  "open_wb name = None \<Longrightarrow> save name data after s = Normal (say after (write_file name data s))"
  "open_wb name = Some e \<Longrightarrow> save name data after s = Raised e s"
  by (simp_all add: save_def)

lemma sniff_ID3: "take 3 message = ID3 \<Longrightarrow> sniff message = Some (''mp3'', DetectedID3)"
proof -
  assume h: "take 3 message = ID3"
  then have "length (take 3 message) = 3" by (simp add: ID3_def)
  then have "length message \<ge> 3" by simp
  with h show ?thesis by (simp add: sniff_def)
qed

text \<open>
  C1. For every binary message whose first three bytes are \<^verbatim>\<open>ID3\<close> and every negotiated
  encoding \<open>f\<close>, the classification is MP3 (\<^verbatim>\<open>is_mp3\<close> true, \<^verbatim>\<open>is_opus\<close> false); the message is
  handled without the decoder: the chunk is written to \<^verbatim>\<open>response.mp3\<close>, and when the
  lower-cased negotiated encoding is not \<^verbatim>\<open>mp3\<close> the mismatch warning is printed before.
\<close>

theorem id3_is_mp3:
  assumes "take 3 message = ID3"
  shows "classify (lower f) (sniff message) = (True, False)
       \<and> handle_binary decode (JStr f) message s =
           Normal (say [SavedMP3 ''response.mp3'', PlayMP3Tip]
             (write_file ''response.mp3'' message
               (say ([ReceivedAudio (length message), DetectedID3] @
                     (if lower f \<noteq> ''mp3''
                      then [FormatMismatch ''mp3'' (JStr f), FormatTip ''mp3''] else [])) s)))"
proof -
  note sn = sniff_ID3 [OF assms]
  show ?thesis
  proof (cases "lower f = ''mp3''")
    case True
    with sn show ?thesis
      by (simp add: classify_def handle_binary_def Let_def say_def write_file_def save_def)
  next
    case False
    then have "''mp3'' \<noteq> lower f" by auto
    with sn False show ?thesis
      by (simp add: classify_def handle_binary_def Let_def say_def write_file_def save_def)
  qed
qed

theorem id3_is_mp3_witness:
  "take 3 [0x49, 0x44, 0x33, 0x04, 0x00] = ID3
   \<and> classify (lower ''opus'') (sniff [0x49, 0x44, 0x33, 0x04, 0x00]) = (True, False)
   \<and> handle_binary rejecting_decoder (JStr ''opus'') [0x49, 0x44, 0x33, 0x04, 0x00] fresh_session =
       Normal (fresh_session
         \<lparr>console := [ReceivedAudio 5, DetectedID3, FormatMismatch ''mp3'' (JStr ''opus''),
                      FormatTip ''mp3'', SavedMP3 ''response.mp3'', PlayMP3Tip],
          files := [''response.mp3'' \<mapsto> [0x49, 0x44, 0x33, 0x04, 0x00]]\<rparr>)"
proof -
  have h: "take 3 [0x49, 0x44, 0x33, 0x04, 0x00] = ID3"
    by (simp add: ID3_def)
  from id3_is_mp3 [OF h, of "''opus''" rejecting_decoder fresh_session] h
  show ?thesis
    by (simp add: say_def write_file_def lower_def lower_char_def fresh_session_def)
qed

text \<open>
  The frame-sync pattern is recognised in every message of at least three bytes.
\<close>

lemma frame_sync_from_three_bytes:
  assumes "length message \<ge> 3" and "message ! 0 = 0xFF" and "(message ! 1) AND 0xE0 = 0xE0"
  shows "classify (lower f) (sniff message) = (True, False)"
proof -
  from assms have "take 3 message \<noteq> ID3"
    by (cases message) (auto simp add: ID3_def)
  with assms have "sniff message = Some (''mp3'', DetectedFrameSync)"
    by (simp add: sniff_def)
  then show ?thesis by (auto simp add: classify_def)
qed

text \<open>
  C4. The claim is that a binary message whose first byte is \<^verbatim>\<open>0xFF\<close> and whose second byte
  has its top three bits set is classified as MP3 whatever its length and the negotiated
  encoding. The two-byte message \<^verbatim>\<open>FF FB\<close> has the pattern, yet nothing is detected in it,
  and under the negotiated encoding \<^verbatim>\<open>opus\<close> it is classified as Opus: the test sits under
  \<^verbatim>\<open>len(message) >= 3\<close>, although it carries its own guard \<^verbatim>\<open>len(message) >= 2\<close>.
\<close>

theorem frame_sync_in_two_bytes_undetected:
  "sniff [0xFF, 0xFB] = None
   \<and> classify (lower ''opus'') (sniff [0xFF, 0xFB]) = (False, True)"
  by (simp add: sniff_def classify_def lower_def lower_char_def)

subsection \<open>Receive task: what ends the loop\<close>


















subsection \<open>Receive task: persisting MP3 chunks\<close>

lemma handle_binary_mp3:
  assumes "fst (classify (lower f) (sniff message))"
  shows "\<exists>s'. handle_binary decode (JStr f) message s = Normal s' \<and> stop s' = stop s
           \<and> files s' = (files s)(''response.mp3'' \<mapsto> message)
           \<and> played s' = played s \<and> decoder s' = decoder s"
proof -
  from assms obtain is_opus where "classify (lower f) (sniff message) = (True, is_opus)"
    by (cases "classify (lower f) (sniff message)") auto
  then show ?thesis
    by (cases "sniff message")
      (auto simp add: handle_binary_def Let_def say_def write_file_def save_def
        split: if_splits)
qed

text \<open>
  C9. Every binary message classified as MP3 is written to the one path \<^verbatim>\<open>response.mp3\<close>,
  opened for writing anew each time: when the receive loop handles a sequence of chunks
  that are all classified as MP3, the file system differs from the one before only at
  \<^verbatim>\<open>response.mp3\<close>, which holds exactly the last chunk, not the chunks one after the other.
\<close>

theorem mp3_file_holds_last_chunk:
  assumes "ms \<noteq> []"
    and "\<forall>m \<in> set ms. fst (classify (lower f) (sniff m))"
    and "\<not> stop s"
  shows "\<exists>s'. receive_messages decode json_loads console_encodes (JStr f)
                (map (\<lambda>m. (Binary m, False)) ms) s
                = Pending s'
            \<and> files s' = (files s)(''response.mp3'' \<mapsto> last ms)"
  using assms
proof (induction ms arbitrary: s)
  case Nil
  then show ?case by simp
next
  case (Cons m ms)
  from Cons.prems have "fst (classify (lower f) (sniff m))" by simp
  from handle_binary_mp3 [OF this, of decode s]
  obtain s1 where s1: "handle_binary decode (JStr f) m s = Normal s1" "stop s1 = stop s"
    "files s1 = (files s)(''response.mp3'' \<mapsto> m)"
    by blast
  show ?case
  proof (cases "ms = []")
    case True
    from s1 Cons.prems True
    have "receive_messages decode json_loads console_encodes (JStr f)
        (map (\<lambda>m. (Binary m, False)) (m # ms)) s = Pending s1"
      by simp
    moreover from s1(3) True
    have "files s1 = (files s)(''response.mp3'' \<mapsto> last (m # ms))"
      by simp
    ultimately show ?thesis by blast
  next
    case False
    from Cons.prems s1 have "\<not> stop s1" and "\<forall>m \<in> set ms. fst (classify (lower f) (sniff m))"
      by simp_all
    from Cons.IH [OF False this(2) this(1)]
    obtain s' where run: "receive_messages decode json_loads console_encodes (JStr f)
        (map (\<lambda>m. (Binary m, False)) ms) s1 = Pending s'"
      and f': "files s' = (files s1)(''response.mp3'' \<mapsto> last ms)"
      by blast
    from s1 Cons.prems run
    have "receive_messages decode json_loads console_encodes (JStr f)
        (map (\<lambda>m. (Binary m, False)) (m # ms)) s = Pending s'"
      by simp
    moreover from f' s1(3) False
    have "files s' = (files s)(''response.mp3'' \<mapsto> last (m # ms))"
      by simp
    ultimately show ?thesis by blast
  qed
qed

theorem mp3_file_holds_last_chunk_witness:
  "\<exists>s'. receive_messages rejecting_decoder json_loads_fragment plain_console (JStr ''mp3'')
           (map (\<lambda>m. (Binary m, False)) [[0x49, 0x44, 0x33, 0x01], [0x49, 0x44, 0x33, 0x02]])
           fresh_session = Pending s'
       \<and> files s' = (files fresh_session)(''response.mp3'' \<mapsto> [0x49, 0x44, 0x33, 0x02])"
proof -
  have h1: "[[0x49, 0x44, 0x33, 0x01], [0x49, 0x44, 0x33, 0x02 :: byte]] \<noteq> []" by simp
  have h2: "\<forall>m \<in> set [[0x49, 0x44, 0x33, 0x01], [0x49, 0x44, 0x33, 0x02]].
              fst (classify (lower ''mp3'') (sniff m))"
    by (simp add: classify_def sniff_def ID3_def lower_def lower_char_def)
  have h3: "\<not> stop fresh_session" by (simp add: fresh_session_def)
  from mp3_file_holds_last_chunk [OF h1 h2 h3, of rejecting_decoder json_loads_fragment
      plain_console]
  show ?thesis by simp
qed

subsection \<open>Receive task: a failing Opus decode\<close>



subsection \<open>Teardown\<close>

text \<open>
  C7, as stated: every teardown step executes exactly once even if an earlier step reports
  an error. It does not hold: when \<^verbatim>\<open>websocket.close()\<close> raises, the exception leaves the
  \<^verbatim>\<open>finally\<close> block, and the receive task is not awaited nor the output stream stopped or
  closed.
\<close>

theorem close_failure_skips_later_steps:
  "fst (teardown (Some OtherError) Finished None None fresh_session) = [SetFlag, CloseChannel]"
  by (simp add: teardown_def)

text \<open>
  C7, amended. The teardown steps run in the order: set the flag, close the channel, await
  the receive task, stop the output stream, close it; none runs twice. Setting the flag and
  the call that closes the channel always happen. A later step runs if and only if every
  step before it returned without raising: the receive task is awaited, and the output
  stream stopped, exactly when closing the channel returned (whatever the terminal state
  of the receive task, an exception or a cancellation included); the output stream is
  closed exactly when stopping it returned as well. The exception that leaves the block
  is that of the first call that raised.
\<close>

theorem teardown_steps:
  "distinct (fst (teardown ws_close recv_terminal out_stop out_close s))
   \<and> prefix (fst (teardown ws_close recv_terminal out_stop out_close s))
        [SetFlag, CloseChannel, AwaitReceive, StopOutput, CloseOutput]
   \<and> prefix [SetFlag, CloseChannel] (fst (teardown ws_close recv_terminal out_stop out_close s))
   \<and> stop (snd (snd (teardown ws_close recv_terminal out_stop out_close s)))
   \<and> (AwaitReceive \<in> set (fst (teardown ws_close recv_terminal out_stop out_close s))
        \<longleftrightarrow> ws_close = None)
   \<and> (StopOutput \<in> set (fst (teardown ws_close recv_terminal out_stop out_close s))
        \<longleftrightarrow> ws_close = None)
   \<and> (CloseOutput \<in> set (fst (teardown ws_close recv_terminal out_stop out_close s))
        \<longleftrightarrow> ws_close = None \<and> out_stop = None)
   \<and> fst (snd (teardown ws_close recv_terminal out_stop out_close s)) =
        (if ws_close \<noteq> None then ws_close else if out_stop \<noteq> None then out_stop
         else out_close)
   \<and> (ws_close = None \<and> out_stop = None \<longrightarrow>
        fst (teardown ws_close recv_terminal out_stop out_close s) =
          [SetFlag, CloseChannel, AwaitReceive, StopOutput, CloseOutput])"
  by (cases ws_close; cases out_stop; cases out_close)
    (simp_all add: teardown_def set_stop_def say_def)

theorem teardown_steps_witness:
  "fst (teardown None (Failed ConnectionClosed) None None fresh_session) =
     [SetFlag, CloseChannel, AwaitReceive, StopOutput, CloseOutput]
   \<and> stop (snd (snd (teardown None (Failed ConnectionClosed) None None fresh_session)))
   \<and> AwaitReceive \<notin> set (fst (teardown (Some OtherError) Finished None None fresh_session))
   \<and> StopOutput \<in> set (fst (teardown None CancelledTask (Some DeviceError) None fresh_session))
   \<and> CloseOutput \<notin> set (fst (teardown None CancelledTask (Some DeviceError) None fresh_session))
   \<and> fst (snd (teardown None CancelledTask (Some DeviceError) None fresh_session))
        = Some DeviceError"
  using teardown_steps [of None "Failed ConnectionClosed" None None fresh_session]
    teardown_steps [of "Some OtherError" Finished None None fresh_session]
    teardown_steps [of None CancelledTask "Some DeviceError" None fresh_session]
  by simp

subsection \<open>Send task: lemmas on the burst and the capture loop\<close>

lemma encode_all_length:
  "encoder_accepts encode enc frames \<Longrightarrow> length (encode_all encode enc frames) = length frames"
  by (induction frames arbitrary: enc) (auto split: prod.splits sum.splits)

lemma send_handler_sent [simp]: "sent (send_handler e s) = sent s"
  by (simp add: send_handler_def set_stop_def say_def)

lemma transmit_sent_prefix:
  "\<exists>new. sent (transmit encode chan i frames s) = sent s @ new
         \<and> prefix new (encode_all encode (encoder s) frames)"
proof (induction frames arbitrary: i s)
  case Nil
  then show ?case by simp
next
  case (Cons pcm_raw rest)
  obtain r enc' where enc: "encode (encoder s) pcm_raw frame_size = (r, enc')"
    by (cases "encode (encoder s) pcm_raw frame_size")
  show ?case
  proof (cases r)
    case (Inl e)
    with enc show ?thesis by simp
  next
    case (Inr opus_frame)
    show ?thesis
    proof (cases "chan i")
      case (SendRaises e)
      with enc Inr show ?thesis by simp
    next
      case (Sent other_stops)
      let ?s1 = "s\<lparr>encoder := enc', sent := sent s @ [opus_frame],
                    stop := (stop s \<or> other_stops)\<rparr>"
      from Cons.IH [of "Suc i" ?s1]
      obtain new where "sent (transmit encode chan (Suc i) rest ?s1) = sent ?s1 @ new"
        "prefix new (encode_all encode (encoder ?s1) rest)"
        by blast
      with enc Inr Sent show ?thesis
        by (intro exI [of _ "opus_frame # new"]) simp
    qed
  qed
qed

lemma transmit_delivered:
  assumes "\<forall>j<length frames. delivered (chan (i + j))"
  shows "sent (transmit encode chan i frames s) = sent s @ encode_all encode (encoder s) frames"
  using assms
proof (induction frames arbitrary: i s)
  case Nil
  then show ?case by simp
next
  case (Cons pcm_raw rest)
  obtain r enc' where enc: "encode (encoder s) pcm_raw frame_size = (r, enc')"
    by (cases "encode (encoder s) pcm_raw frame_size")
  show ?case
  proof (cases r)
    case (Inl e)
    with enc show ?thesis by simp
  next
    case (Inr opus_frame)
    from Cons.prems have "delivered (chan (i + 0))" by blast
    then obtain other_stops where ch: "chan i = Sent other_stops"
      by (cases "chan i") simp_all
    let ?s1 = "s\<lparr>encoder := enc', sent := sent s @ [opus_frame],
                  stop := (stop s \<or> other_stops)\<rparr>"
    have "\<forall>j<length rest. delivered (chan (Suc i + j))"
    proof (intro allI impI)
      fix j assume "j < length rest"
      then have "Suc j < length (pcm_raw # rest)" by simp
      with Cons.prems have "delivered (chan (i + Suc j))" by blast
      then show "delivered (chan (Suc i + j))" by simp
    qed
    with Cons.IH [of "Suc i" ?s1]
    have "sent (transmit encode chan (Suc i) rest ?s1) = sent ?s1 @ encode_all encode enc' rest"
      by simp
    with enc Inr ch show ?thesis by simp
  qed
qed

text \<open>With an encoder that keeps no state the packets are the frames' images, in order.\<close>

lemma encode_all_stateless:
  "encode_all (\<lambda>enc pcm_raw n. (Inr (g pcm_raw), enc)) enc frames = map g frames"
  by (induction frames) simp_all

lemma transmit_exact:
  "sent (transmit encode chan i frames s) =
   sent s @ take (leading chan i (length frames)) (encode_all encode (encoder s) frames)"
proof (induction frames arbitrary: i s)
  case Nil
  then show ?case by simp
next
  case (Cons pcm_raw rest)
  obtain r enc' where enc: "encode (encoder s) pcm_raw frame_size = (r, enc')"
    by (cases "encode (encoder s) pcm_raw frame_size")
  show ?case
  proof (cases r)
    case (Inl e)
    with enc show ?thesis by simp
  next
    case (Inr opus_frame)
    show ?thesis
    proof (cases "chan i")
      case (SendRaises e)
      with enc Inr show ?thesis by simp
    next
      case (Sent other_stops)
      let ?s1 = "s\<lparr>encoder := enc', sent := sent s @ [opus_frame],
                    stop := (stop s \<or> other_stops)\<rparr>"
      from Cons.IH [of "Suc i" ?s1]
      have "sent (transmit encode chan (Suc i) rest ?s1) =
            sent ?s1 @ take (leading chan (Suc i) (length rest)) (encode_all encode enc' rest)"
        by simp
      with enc Inr Sent show ?thesis by simp
    qed
  qed
qed

lemma transmit_ignores_flag:
  "sent (transmit encode chan i frames s) =
   sent (transmit encode (\<lambda>j. undisturbed (chan j)) i frames (s\<lparr>stop := b\<rparr>))"
proof (induction frames arbitrary: i s b)
  case Nil
  then show ?case by simp
next
  case (Cons pcm_raw rest)
  obtain r enc' where enc: "encode (encoder s) pcm_raw frame_size = (r, enc')"
    by (cases "encode (encoder s) pcm_raw frame_size")
  show ?case
  proof (cases r)
    case (Inl e)
    with enc show ?thesis by simp
  next
    case (Inr opus_frame)
    show ?thesis
    proof (cases "chan i")
      case (SendRaises e)
      with enc Inr show ?thesis by simp
    next
      case (Sent other_stops)
      let ?s1 = "s\<lparr>encoder := enc', sent := sent s @ [opus_frame],
                    stop := (stop s \<or> other_stops)\<rparr>"
      from Cons.IH [of "Suc i" ?s1 b]
      have "sent (transmit encode chan (Suc i) rest ?s1) =
            sent (transmit encode (\<lambda>j. undisturbed (chan j)) (Suc i) rest (?s1\<lparr>stop := b\<rparr>))"
        .
      with enc Inr Sent show ?thesis by simp
    qed
  qed
qed


lemma capture_handler_keeps [simp]:
  "sent (capture_handler e s) = sent s" "encoder (capture_handler e s) = encoder s"
  "stop (capture_handler e s)"
  by (simp_all add: capture_handler_def set_stop_def say_def)

lemma capture_frames:
  assumes "capture start_ts ticks frames last_overflow_log s = Some (frames', lol', s')"
  shows "frames' = frames @ map pcm_of (filter (\<lambda>t. read_ok (mic_read t))
                                  (take (passes start_ts ticks (stop s)) ticks))
       \<and> sent s' = sent s \<and> encoder s' = encoder s"
  using assms
proof (induction ticks arbitrary: frames last_overflow_log s)
  case Nil
  then show ?case by (simp split: if_splits)
next
  case (Cons t ts)
  show ?case
  proof (cases "\<not> stop s \<and> monotonic t - start_ts < record_seconds")
    case False
    with Cons.prems have "frames' = frames" "s' = s" by auto
    with False show ?thesis by auto
  next
    case True
    show ?thesis
    proof (cases "mic_read t")
      case (Inl e)
      with True Cons.prems
      have "capture start_ts ts frames last_overflow_log (capture_handler e s)
              = Some (frames', lol', s')"
        by simp
      from Cons.IH [OF this] True Inl show ?thesis by simp
    next
      case (Inr r)
      obtain pcm_bytes overflowed where r: "r = (pcm_bytes, overflowed)" by (cases r)
      let ?warn = "overflowed \<and> wall_check t - last_overflow_log > 5"
      let ?s1 = "if ?warn then say [InputOverflowed] s else s"
      let ?lol = "if ?warn then wall_log t else last_overflow_log"
      let ?s2 = "if cancelled_meanwhile t then set_stop ?s1 else ?s1"
      from True Cons.prems Inr r
      have "capture start_ts ts (frames @ [pcm_bytes]) ?lol ?s2 = Some (frames', lol', s')"
        by (simp add: Let_def)
      from Cons.IH [OF this]
      have "frames' = (frames @ [pcm_bytes]) @
              map pcm_of (filter (\<lambda>t. read_ok (mic_read t))
                            (take (passes start_ts ts (stop ?s2)) ts))"
        "sent s' = sent ?s2" "encoder s' = encoder ?s2"
        by auto
      moreover from True have "stop ?s2 = cancelled_meanwhile t"
        by (simp add: say_def set_stop_def)
      ultimately show ?thesis
        using True Inr r by (simp add: pcm_of_def say_def set_stop_def)
    qed
  qed
qed

lemma transmit_in_order:
  "sent (transmit encode chan 0 frames s) =
     sent s @ take (leading chan 0 (length frames)) (encode_all encode (encoder s) frames)
   \<and> ((\<forall>j<length frames. delivered (chan j)) \<longrightarrow>
        sent (transmit encode chan 0 frames s) = sent s @ encode_all encode (encoder s) frames)
   \<and> ((\<forall>j<length frames. delivered (chan j)) \<and> encoder_accepts encode (encoder s) frames \<longrightarrow>
        length (sent (transmit encode chan 0 frames s)) = length (sent s) + length frames)"
proof (intro conjI impI)
  show "sent (transmit encode chan 0 frames s) =
     sent s @ take (leading chan 0 (length frames)) (encode_all encode (encoder s) frames)"
    by (rule transmit_exact)
next
  assume "\<forall>j<length frames. delivered (chan j)"
  then have "\<forall>j<length frames. delivered (chan (0 + j))" by simp
  from transmit_delivered [OF this]
  show "sent (transmit encode chan 0 frames s) = sent s @ encode_all encode (encoder s) frames" .
next
  assume h: "(\<forall>j<length frames. delivered (chan j)) \<and> encoder_accepts encode (encoder s) frames"
  then have "\<forall>j<length frames. delivered (chan (0 + j))" by simp
  from transmit_delivered [OF this, of encode s] h encode_all_length [of encode "encoder s" frames]
  show "length (sent (transmit encode chan 0 frames s)) = length (sent s) + length frames"
    by simp
qed

lemma capture_window:
  assumes "\<not> stop s"
    and "n < length ts"
    and "\<forall>i<n. monotonic (ts ! i) - start_ts < record_seconds
              \<and> read_ok (mic_read (ts ! i)) \<and> \<not> cancelled_meanwhile (ts ! i)"
    and "\<not> monotonic (ts ! n) - start_ts < record_seconds"
  shows "\<exists>lol' s'. capture start_ts ts frames last_overflow_log s
                    = Some (frames @ map pcm_of (take n ts), lol', s')
           \<and> \<not> stop s' \<and> sent s' = sent s \<and> encoder s' = encoder s"
  using assms
proof (induction n arbitrary: ts frames last_overflow_log s)
  case 0
  then obtain t ts' where "ts = t # ts'" by (cases ts) auto
  with 0 show ?case by simp
next
  case (Suc n)
  then obtain t ts' where ts: "ts = t # ts'" by (cases ts) auto
  from Suc.prems(3) ts have t: "monotonic t - start_ts < record_seconds"
    "read_ok (mic_read t)" "\<not> cancelled_meanwhile t"
    by auto
  from t(2) obtain pcm_bytes overflowed where rd: "mic_read t = Inr (pcm_bytes, overflowed)"
    by (cases "mic_read t") auto
  let ?warn = "overflowed \<and> wall_check t - last_overflow_log > 5"
  let ?s1 = "if ?warn then say [InputOverflowed] s else s"
  let ?lol = "if ?warn then wall_log t else last_overflow_log"
  have s1: "\<not> stop ?s1" "sent ?s1 = sent s" "encoder ?s1 = encoder s"
    using Suc.prems(1) by (simp_all add: say_def)
  have len: "n < length ts'" using Suc.prems(2) ts by simp
  have win: "\<forall>i<n. monotonic (ts' ! i) - start_ts < record_seconds
              \<and> read_ok (mic_read (ts' ! i)) \<and> \<not> cancelled_meanwhile (ts' ! i)"
  proof (intro allI impI)
    fix i assume "i < n"
    then have "Suc i < Suc n" by simp
    with Suc.prems(3) have "monotonic (ts ! Suc i) - start_ts < record_seconds
              \<and> read_ok (mic_read (ts ! Suc i)) \<and> \<not> cancelled_meanwhile (ts ! Suc i)"
      by blast
    with ts show "monotonic (ts' ! i) - start_ts < record_seconds
              \<and> read_ok (mic_read (ts' ! i)) \<and> \<not> cancelled_meanwhile (ts' ! i)"
      by simp
  qed
  have out: "\<not> monotonic (ts' ! n) - start_ts < record_seconds"
    using Suc.prems(4) ts by simp
  from Suc.IH [OF s1(1) len win out, of "frames @ [pcm_bytes]" ?lol]
  obtain lol' s' where
    "capture start_ts ts' (frames @ [pcm_bytes]) ?lol ?s1
       = Some ((frames @ [pcm_bytes]) @ map pcm_of (take n ts'), lol', s')"
    "\<not> stop s'" "sent s' = sent ?s1" "encoder s' = encoder ?s1"
    by blast
  with ts t rd Suc.prems(1) s1 show ?case
    by (intro exI [of _ lol'] exI [of _ s']) (simp add: Let_def pcm_of_def)
qed

lemma numbering_encoder_accepts: "encoder_accepts numbering_encoder enc frames"
  by (induction frames arbitrary: enc) (simp_all add: numbering_encoder_def)

lemma steady_ticks_nth: "i < 251 \<Longrightarrow> steady_ticks ! i = steady_tick i"
  by (simp add: steady_ticks_def)

subsection \<open>Send task: five seconds of capture\<close>

text \<open>
  C5. Take a capture that nobody cancels, in which the clock advances by 20 ms per frame
  (the loop condition before frame \<open>i\<close> is evaluated at least \<open>i\<close> and less than \<open>i + 1\<close>
  frame periods after \<^verbatim>\<open>start_ts\<close>), every read succeeds, the encoder accepts the frames and
  every send is delivered. Then \<^verbatim>\<open>send_audio\<close> returns, it has captured exactly the first 250
  frames of the microphone, and it has transmitted exactly 250 packets: the encodings of
  these frames in capture order.
\<close>

theorem five_seconds_give_250_frames:
  assumes "\<not> stop s"
    and "length ticks > 250"
    and "\<forall>i\<le>250. real i / 50 \<le> monotonic (ticks ! i) - start_ts
                \<and> monotonic (ticks ! i) - start_ts < real (i + 1) / 50"
    and "\<forall>i<250. read_ok (mic_read (ticks ! i)) \<and> \<not> cancelled_meanwhile (ticks ! i)"
    and "encoder_accepts encode (encoder s) (map pcm_of (take 250 ticks))"
    and "\<forall>j<250. delivered (chan j)"
  shows "\<exists>frames s'. send_audio encode start_ts ticks chan s = Some (frames, s')
           \<and> frames = map pcm_of (take 250 ticks)
           \<and> length frames = 250
           \<and> sent s' = sent s @ encode_all encode (encoder s) frames
           \<and> length (encode_all encode (encoder s) frames) = 250"
proof -
  let ?frames = "map pcm_of (take 250 ticks)"
  have len: "length ?frames = 250" using assms(2) by simp
  have win: "\<forall>i<250. monotonic (ticks ! i) - start_ts < record_seconds
              \<and> read_ok (mic_read (ticks ! i)) \<and> \<not> cancelled_meanwhile (ticks ! i)"
  proof (intro allI impI)
    fix i :: nat assume i: "i < 250"
    then have "i \<le> 250" by simp
    with assms(3) have "monotonic (ticks ! i) - start_ts < real (i + 1) / 50" by blast
    also from i have "real (i + 1) / 50 \<le> 5" by simp
    finally have "monotonic (ticks ! i) - start_ts < record_seconds"
      by (simp add: record_seconds_def)
    with assms(4) i show "monotonic (ticks ! i) - start_ts < record_seconds
              \<and> read_ok (mic_read (ticks ! i)) \<and> \<not> cancelled_meanwhile (ticks ! i)"
      by blast
  qed
  from assms(3) have "real 250 / 50 \<le> monotonic (ticks ! 250) - start_ts" by blast
  then have out: "\<not> monotonic (ticks ! 250) - start_ts < record_seconds"
    by (simp add: record_seconds_def)
  from capture_window [OF assms(1) assms(2) win out, of "[]" 0]
  obtain lol' s1 where cap: "capture start_ts ticks [] 0 s = Some (?frames, lol', s1)"
    and s1: "\<not> stop s1" "sent s1 = sent s" "encoder s1 = encoder s"
    by auto
  let ?s2 = "say [SendingFrames (length ?frames) (length ?frames * 20)] s1"
  have s2: "sent ?s2 = sent s" "encoder ?s2 = encoder s"
    using s1 by (simp_all add: say_def)
  have "\<forall>j<length ?frames. delivered (chan (0 + j))"
    using assms(6) len by simp
  with transmit_delivered [where frames = ?frames and chan = chan and i = 0
      and encode = encode and s = ?s2] s2
  have tx: "sent (transmit encode chan 0 ?frames ?s2)
              = sent s @ encode_all encode (encoder s) ?frames"
    by simp
  from len have ne: "?frames \<noteq> []" by auto
  have "send_audio encode start_ts ticks chan s
          = Some (?frames, say [FinishedSending] (transmit encode chan 0 ?frames ?s2))"
    using cap ne by (simp add: send_audio_def Let_def)
  moreover have "sent (say [FinishedSending] (transmit encode chan 0 ?frames ?s2))
                   = sent s @ encode_all encode (encoder s) ?frames"
    using tx by (simp add: say_def)
  moreover have "length (encode_all encode (encoder s) ?frames) = 250"
    using encode_all_length [OF assms(5)] len by simp
  ultimately show ?thesis using len by blast
qed

theorem five_seconds_give_250_frames_witness:
  "\<exists>frames s'. send_audio numbering_encoder 0 steady_ticks steady_channel fresh_session
                  = Some (frames, s')
     \<and> frames = map pcm_of (take 250 steady_ticks)
     \<and> length frames = 250
     \<and> sent s' = sent fresh_session @ encode_all numbering_encoder (encoder fresh_session) frames
     \<and> length (encode_all numbering_encoder (encoder fresh_session) frames) = 250"
proof -
  have h1: "\<not> stop fresh_session" by (simp add: fresh_session_def)
  have h2: "length steady_ticks > 250" by (simp add: steady_ticks_def)
  have h3: "\<forall>i\<le>250. real i / 50 \<le> monotonic (steady_ticks ! i) - 0
                \<and> monotonic (steady_ticks ! i) - 0 < real (i + 1) / 50"
  proof (intro allI impI)
    fix i :: nat assume "i \<le> 250"
    then have "steady_ticks ! i = steady_tick i" by (simp add: steady_ticks_nth)
    then show "real i / 50 \<le> monotonic (steady_ticks ! i) - 0
                \<and> monotonic (steady_ticks ! i) - 0 < real (i + 1) / 50"
      by (simp add: steady_tick_def)
  qed
  have h4: "\<forall>i<250. read_ok (mic_read (steady_ticks ! i))
                \<and> \<not> cancelled_meanwhile (steady_ticks ! i)"
  proof (intro allI impI)
    fix i :: nat assume "i < 250"
    then have "steady_ticks ! i = steady_tick i" by (simp add: steady_ticks_nth)
    then show "read_ok (mic_read (steady_ticks ! i)) \<and> \<not> cancelled_meanwhile (steady_ticks ! i)"
      by (simp add: steady_tick_def)
  qed
  have h5: "encoder_accepts numbering_encoder (encoder fresh_session)
              (map pcm_of (take 250 steady_ticks))"
    by (rule numbering_encoder_accepts)
  have h6: "\<forall>j<250. delivered (steady_channel j)" by (simp add: steady_channel_def)
  from five_seconds_give_250_frames [OF h1 h2 h3 h4 h5 h6] show ?thesis .
qed

subsection \<open>Send task: order of transmission\<close>

text \<open>
  C6. For every sequence of captured frames, the messages the burst hands to the channel
  are the Opus encodings of the frames, taken in capture order by the one encoder: what is
  added to the sent messages is a prefix of that sequence (nothing reordered, duplicated or
  inserted), which ends with the first frame whose encode or send raises; it is the whole
  sequence when every send is delivered, and then one message per frame when the encoder
  accepts every frame. The same holds of \<^verbatim>\<open>send_audio\<close> as a whole, whenever its capture
  loop ends: the frames it captured are the successful reads of the passes its loop made,
  in their order, and what it sent are their encodings in that order, all of them when
  every send is delivered.
\<close>

theorem transmitted_in_capture_order:
  "sent (transmit encode chan 0 frames s) =
     sent s @ take (leading chan 0 (length frames)) (encode_all encode (encoder s) frames)
   \<and> ((\<forall>j<length frames. delivered (chan j)) \<longrightarrow>
        sent (transmit encode chan 0 frames s) = sent s @ encode_all encode (encoder s) frames)
   \<and> ((\<forall>j<length frames. delivered (chan j)) \<and> encoder_accepts encode (encoder s) frames \<longrightarrow>
        length (sent (transmit encode chan 0 frames s)) = length (sent s) + length frames)
   \<and> (send_audio encode start_ts ticks chan s = Some (captured, s') \<longrightarrow>
        captured = map pcm_of (filter (\<lambda>t. read_ok (mic_read t))
                                 (take (passes start_ts ticks (stop s)) ticks))
        \<and> sent s' = sent s @ take (leading chan 0 (length captured))
                                (encode_all encode (encoder s) captured)
        \<and> ((\<forall>j<length captured. delivered (chan j)) \<longrightarrow>
             sent s' = sent s @ encode_all encode (encoder s) captured)
        \<and> ((\<forall>j<length captured. delivered (chan j))
             \<and> encoder_accepts encode (encoder s) captured \<longrightarrow>
             length (sent s') = length (sent s) + length captured))"
proof -
  have burst: "sent (transmit encode chan 0 frames s) =
     sent s @ take (leading chan 0 (length frames)) (encode_all encode (encoder s) frames)
   \<and> ((\<forall>j<length frames. delivered (chan j)) \<longrightarrow>
        sent (transmit encode chan 0 frames s) = sent s @ encode_all encode (encoder s) frames)
   \<and> ((\<forall>j<length frames. delivered (chan j)) \<and> encoder_accepts encode (encoder s) frames \<longrightarrow>
        length (sent (transmit encode chan 0 frames s)) = length (sent s) + length frames)"
    by (rule transmit_in_order)
  have whole: "captured = map pcm_of (filter (\<lambda>t. read_ok (mic_read t))
                                 (take (passes start_ts ticks (stop s)) ticks))
        \<and> sent s' = sent s @ take (leading chan 0 (length captured))
                                (encode_all encode (encoder s) captured)
        \<and> ((\<forall>j<length captured. delivered (chan j)) \<longrightarrow>
             sent s' = sent s @ encode_all encode (encoder s) captured)
        \<and> ((\<forall>j<length captured. delivered (chan j))
             \<and> encoder_accepts encode (encoder s) captured \<longrightarrow>
             length (sent s') = length (sent s) + length captured)"
    if sa: "send_audio encode start_ts ticks chan s = Some (captured, s')"
  proof -
    from sa obtain lol' s1 where cap: "capture start_ts ticks [] 0 s = Some (captured, lol', s1)"
      by (auto simp add: send_audio_def Let_def split: option.splits)
    from capture_frames [OF cap]
    have fr: "captured = map pcm_of (filter (\<lambda>t. read_ok (mic_read t))
                                   (take (passes start_ts ticks (stop s)) ticks))"
      and s1: "sent s1 = sent s" "encoder s1 = encoder s"
      by simp_all
    let ?s2 = "if captured \<noteq> []
               then say [SendingFrames (length captured) (length captured * 20)] s1 else s1"
    have s2: "sent ?s2 = sent s" "encoder ?s2 = encoder s"
      using s1 by (simp_all add: say_def)
    from sa cap have "s' = say [FinishedSending] (transmit encode chan 0 captured ?s2)"
      by (simp add: send_audio_def Let_def)
    then have s': "sent s' = sent (transmit encode chan 0 captured ?s2)"
      by (simp add: say_def)
    from transmit_in_order [of encode chan captured ?s2]
    have "sent s' = sent s @ take (leading chan 0 (length captured))
                                (encode_all encode (encoder s) captured)
        \<and> ((\<forall>j<length captured. delivered (chan j)) \<longrightarrow>
             sent s' = sent s @ encode_all encode (encoder s) captured)
        \<and> ((\<forall>j<length captured. delivered (chan j))
             \<and> encoder_accepts encode (encoder s) captured \<longrightarrow>
             length (sent s') = length (sent s) + length captured)"
      unfolding s' s2 .
    with fr show ?thesis by blast
  qed
  from burst whole show ?thesis by blast
qed

theorem transmitted_in_capture_order_witness:
  "sent (transmit numbering_encoder steady_channel 0 [[1, 2], [3, 4]] fresh_session)
     = [[0, 1, 2], [1, 3, 4]]
   \<and> (\<exists>s'. send_audio numbering_encoder 0 [steady_tick 0, steady_tick 1, steady_tick 250]
                 steady_channel fresh_session = Some ([[0, 0], [1, 0]], s')
           \<and> sent s' = [[0, 0, 0], [1, 1, 0]])"
proof -
  have h: "\<forall>j<length [[1, 2], [3, 4 :: byte]]. delivered (steady_channel j)"
    by (simp add: steady_channel_def)
  have h': "\<forall>j<length [[0, 0], [1, 0 :: byte]]. delivered (steady_channel j)"
    by (simp add: steady_channel_def)
  have sa: "send_audio numbering_encoder 0 [steady_tick 0, steady_tick 1, steady_tick 250]
              steady_channel fresh_session
            = Some ([[0, 0], [1, 0]],
                say [FinishedSending]
                  (transmit numbering_encoder steady_channel 0 [[0, 0], [1, 0]]
                     (say [SendingFrames 2 40] fresh_session)))"
    by (simp add: send_audio_def steady_tick_def record_seconds_def fresh_session_def say_def
        Let_def numbering_encoder_def steady_channel_def)
  have e1: "encode_all numbering_encoder (encoder fresh_session) [[1, 2], [3, 4]]
              = [[0, 1, 2], [1, 3, 4]]"
    by (simp add: numbering_encoder_def fresh_session_def)
  have e2: "encode_all numbering_encoder (encoder fresh_session) [[0, 0], [1, 0]]
              = [[0, 0, 0], [1, 1, 0]]"
    by (simp add: numbering_encoder_def fresh_session_def)
  have s0: "sent fresh_session = []"
    by (simp add: fresh_session_def)
  note inst = transmitted_in_capture_order [where encode = numbering_encoder
      and chan = steady_channel and frames = "[[1, 2], [3, 4]]" and s = fresh_session
      and start_ts = 0 and ticks = "[steady_tick 0, steady_tick 1, steady_tick 250]"
      and captured = "[[0, 0], [1, 0]]"
      and s' = "say [FinishedSending]
                  (transmit numbering_encoder steady_channel 0 [[0, 0], [1, 0]]
                     (say [SendingFrames 2 40] fresh_session))"]
  from inst h
  have "sent (transmit numbering_encoder steady_channel 0 [[1, 2], [3, 4]] fresh_session)
          = sent fresh_session
            @ encode_all numbering_encoder (encoder fresh_session) [[1, 2], [3, 4]]"
    by blast
  then have a: "sent (transmit numbering_encoder steady_channel 0 [[1, 2], [3, 4]] fresh_session)
     = [[0, 1, 2], [1, 3, 4]]"
    unfolding e1 s0 by (simp only: append_Nil)
  from inst sa h'
  have "sent (say [FinishedSending]
                  (transmit numbering_encoder steady_channel 0 [[0, 0], [1, 0]]
                     (say [SendingFrames 2 40] fresh_session)))
          = sent fresh_session
            @ encode_all numbering_encoder (encoder fresh_session) [[0, 0], [1, 0]]"
    by blast
  then have b: "sent (say [FinishedSending]
                  (transmit numbering_encoder steady_channel 0 [[0, 0], [1, 0]]
                     (say [SendingFrames 2 40] fresh_session))) = [[0, 0, 0], [1, 1, 0]]"
    unfolding e2 s0 by (simp only: append_Nil)
  from sa a b show ?thesis by blast
qed

subsection \<open>Send task: the burst and the cancellation flag\<close>

text \<open>
  C10, as stated: once the capture window has ended, every buffered frame is encoded and
  transmitted unless a send operation itself raises. It does not hold: with three buffered
  frames, every send delivered, and an encoder that raises on the second frame, the burst
  transmits one message and ends; \<^verbatim>\<open>encoder.encode\<close> is in the same \<^verbatim>\<open>try\<close> as the send.
\<close>

theorem encoder_rejection_ends_burst:
  "delivered (steady_channel 0) \<and> delivered (steady_channel 1) \<and> delivered (steady_channel 2)
   \<and> sent (transmit picky_encoder steady_channel 0 [[1], [2], [3]] fresh_session) = [[0, 1]]
   \<and> stop (transmit picky_encoder steady_channel 0 [[1], [2], [3]] fresh_session)"
  by (simp add: steady_channel_def picky_encoder_def fresh_session_def send_handler_def
      set_stop_def say_def)

text \<open>
  C10, amended. The encode-and-transmit burst never reads the flag: what it sends is what
  it would send with the flag clear at the start and never set by the receive task during
  a send. So, whatever the flag is at the start and whenever the receive task sets it,
  every buffered frame is encoded and transmitted, in order, unless an encode or a send
  operation raises; in every case what has been transmitted are the encodings of the
  buffered frames, in order, up to the first frame whose encode or send raised.
\<close>

theorem burst_ignores_cancellation:
  "sent (transmit encode chan 0 frames s) =
     sent (transmit encode (\<lambda>j. undisturbed (chan j)) 0 frames (s\<lparr>stop := False\<rparr>))
   \<and> ((\<forall>j<length frames. delivered (chan j)) \<and> encoder_accepts encode (encoder s) frames \<longrightarrow>
        sent (transmit encode chan 0 frames s) = sent s @ encode_all encode (encoder s) frames
        \<and> length (encode_all encode (encoder s) frames) = length frames)
   \<and> sent (transmit encode chan 0 frames s) =
       sent s @ take (leading chan 0 (length frames)) (encode_all encode (encoder s) frames)"
proof (intro conjI impI)
  show "sent (transmit encode chan 0 frames s) =
     sent (transmit encode (\<lambda>j. undisturbed (chan j)) 0 frames (s\<lparr>stop := False\<rparr>))"
    by (rule transmit_ignores_flag)
next
  assume h: "(\<forall>j<length frames. delivered (chan j)) \<and> encoder_accepts encode (encoder s) frames"
  then have "\<forall>j<length frames. delivered (chan (0 + j))" by simp
  from transmit_delivered [OF this]
  show "sent (transmit encode chan 0 frames s) = sent s @ encode_all encode (encoder s) frames" .
  from h encode_all_length [of encode "encoder s" frames]
  show "length (encode_all encode (encoder s) frames) = length frames" by blast
next
  show "sent (transmit encode chan 0 frames s) =
       sent s @ take (leading chan 0 (length frames)) (encode_all encode (encoder s) frames)"
    by (rule transmit_exact)
qed

theorem burst_ignores_cancellation_witness:
  "sent (transmit numbering_encoder disturbed_channel 0 [[1, 2], [3, 4]]
           (fresh_session\<lparr>stop := True\<rparr>)) = [[0, 1, 2], [1, 3, 4]]
   \<and> sent (transmit numbering_encoder (\<lambda>j. undisturbed (disturbed_channel j)) 0 [[1, 2], [3, 4]]
           (fresh_session\<lparr>stop := True, stop := False\<rparr>)) = [[0, 1, 2], [1, 3, 4]]"
proof -
  have h: "(\<forall>j<length [[1, 2], [3, 4 :: byte]]. delivered (disturbed_channel j))
           \<and> encoder_accepts numbering_encoder (encoder (fresh_session\<lparr>stop := True\<rparr>))
                [[1, 2], [3, 4]]"
    by (intro conjI numbering_encoder_accepts) (simp add: disturbed_channel_def)
  have e: "encode_all numbering_encoder (encoder (fresh_session\<lparr>stop := True\<rparr>))
             [[1, 2], [3, 4]] = [[0, 1, 2], [1, 3, 4]]"
    by (simp add: numbering_encoder_def fresh_session_def)
  have s0: "sent (fresh_session\<lparr>stop := True\<rparr>) = []"
    by (simp add: fresh_session_def)
  note inst = burst_ignores_cancellation [of numbering_encoder disturbed_channel
      "[[1, 2], [3, 4]]" "fresh_session\<lparr>stop := True\<rparr>"]
  from inst h
  have full: "sent (transmit numbering_encoder disturbed_channel 0 [[1, 2], [3, 4]]
                     (fresh_session\<lparr>stop := True\<rparr>))
              = sent (fresh_session\<lparr>stop := True\<rparr>)
                @ encode_all numbering_encoder (encoder (fresh_session\<lparr>stop := True\<rparr>))
                    [[1, 2], [3, 4]]"
    by blast
  have a: "sent (transmit numbering_encoder disturbed_channel 0 [[1, 2], [3, 4]]
                  (fresh_session\<lparr>stop := True\<rparr>)) = [[0, 1, 2], [1, 3, 4]]"
    unfolding full e s0 by (rule append_Nil)
  from inst
  have eq: "sent (transmit numbering_encoder disturbed_channel 0 [[1, 2], [3, 4]]
                   (fresh_session\<lparr>stop := True\<rparr>))
            = sent (transmit numbering_encoder (\<lambda>j. undisturbed (disturbed_channel j)) 0
                      [[1, 2], [3, 4]] (fresh_session\<lparr>stop := True, stop := False\<rparr>))"
    by blast
  from a eq [symmetric] show ?thesis by (simp only:)
qed

end
